theory Spec2Isabelle
  imports Main
begin

section \<open>Strings\<close>

text \<open>
  A Python \<open>str\<close> is a sequence of code points. The embedding uses \<open>string\<close>, whose
  characters are the code points below 256; \<open>str.lower\<close> and the class \<open>\w\<close> of the
  \<open>re\<close> module are given by their Unicode tables on that range (Latin-1), where
  lowering maps each code point to one code point. Above U+00FF it does not: the parser
  is given once more, on code points, in the section on code points beyond Latin-1.
\<close>

definition quote :: char where
  "quote = CHR 0x27"

definition is_upper :: "char \<Rightarrow> bool" where
  "is_upper c = (let n = (of_char c :: nat) in
     (65 \<le> n \<and> n \<le> 90) \<or> (192 \<le> n \<and> n \<le> 214) \<or> (216 \<le> n \<and> n \<le> 222))"

definition lower_char :: "char \<Rightarrow> char" where
  "lower_char c = (if is_upper c then char_of (of_char c + (32::nat)) else c)"

text \<open>\<open>s.lower()\<close>\<close>

definition lower :: "string \<Rightarrow> string" where
  "lower s = map lower_char s"

text \<open>\<open>\w\<close>: alphanumeric code points and the underscore.\<close>

definition is_word :: "char \<Rightarrow> bool" where
  "is_word c = (let n = (of_char c :: nat) in
     (48 \<le> n \<and> n \<le> 57) \<or> (65 \<le> n \<and> n \<le> 90) \<or> n = 95 \<or> (97 \<le> n \<and> n \<le> 122)
     \<or> n = 170 \<or> n = 178 \<or> n = 179 \<or> n = 181 \<or> n = 185 \<or> n = 186
     \<or> (188 \<le> n \<and> n \<le> 190) \<or> (192 \<le> n \<and> n \<le> 214)
     \<or> (216 \<le> n \<and> n \<le> 246) \<or> (248 \<le> n \<and> n \<le> 255))"

text \<open>The class \<open>[\w\.-]\<close>.\<close>

definition addr_char :: "char \<Rightarrow> bool" where
  "addr_char c = (is_word c \<or> c = CHR ''.'' \<or> c = CHR ''-'')"

text \<open>The dot of a pattern compiled without flags: any character but the newline.\<close>

definition any_char :: "char \<Rightarrow> bool" where
  "any_char c = (c \<noteq> CHR 0x0A)"

text \<open>\<open>sub in s\<close> on strings.\<close>

fun contains :: "string \<Rightarrow> string \<Rightarrow> bool" where
  "contains [] sub = (sub = [])"
| "contains (c # cs) sub = (take (length sub) (c # cs) = sub \<or> contains cs sub)"


section \<open>The instruction pattern\<close>

text \<open>
  The pattern of \<open>mock_llm_reason\<close> is a sequence of literals and of greedy repetitions
  of one character class. Each atom carries the number of the capture group it lies in
  (0 for none):
  \<^verbatim>\<open>send email to ([\w\.-]+@[\w\.-]+) about (.*) saying '(.+)'\<close>
\<close>

datatype 'c atom = Lit "'c list" | Rep nat "'c \<Rightarrow> bool"

definition instruction_re :: "(nat \<times> char atom) list" where
  "instruction_re =
     [(0, Lit ''send email to ''),
      (1, Rep 1 addr_char), (1, Lit ''@''), (1, Rep 1 addr_char),
      (0, Lit '' about ''),
      (2, Rep 0 any_char),
      (0, Lit ('' saying '' @ [quote])),
      (3, Rep 1 any_char),
      (0, Lit [quote])]"

text \<open>
  Backtracking: \<open>first_down f lo k\<close> tries the counts \<open>k\<close>, \<open>k - 1\<close>, ... down to
  \<open>lo\<close> and keeps the first that lets the rest of the pattern match.
\<close>

fun first_down :: "(nat \<Rightarrow> 'a option) \<Rightarrow> nat \<Rightarrow> nat \<Rightarrow> 'a option" where
  "first_down f lo 0 = (if 0 < lo then None else f 0)"
| "first_down f lo (Suc k) =
     (if Suc k < lo then None
      else case f (Suc k) of
             Some r \<Rightarrow> Some r
           | None \<Rightarrow> first_down f lo k)"

text \<open>
  \<open>re.match\<close>: the pattern is matched at the start of the string and need not reach its
  end. A greedy repetition first takes the longest run of its class. The result is the
  text consumed by each atom.
\<close>

primrec re_match :: "(nat \<times> 'c atom) list \<Rightarrow> 'c list \<Rightarrow> 'c list list option" where
  "re_match [] s = Some []"
| "re_match (a # as) s =
     (case snd a of
        Lit l \<Rightarrow>
          (if take (length l) s = l
           then map_option ((#) l) (re_match as (drop (length l) s))
           else None)
      | Rep lo c \<Rightarrow>
          first_down (\<lambda>k. map_option ((#) (take k s)) (re_match as (drop k s)))
            lo (length (takeWhile c s)))"

text \<open>\<open>match.groups()\<close>: the text of capture group \<open>g\<close>.\<close>

definition group :: "nat \<Rightarrow> (nat \<times> 'c atom) list \<Rightarrow> 'c list list \<Rightarrow> 'c list" where
  "group g re chunks = concat (map snd (filter (\<lambda>p. fst (fst p) = g) (zip re chunks)))"


section \<open>mock_llm_reason\<close>

datatype exn = ValueError string | KeyError string | TimeoutError | PlaywrightError

type_synonym pdict = "(string \<times> string) list"

type_synonym step = "string \<times> pdict"

text \<open>
  The effects of the program, in the order they happen: the calls on the browser and the
  page, and the log records. The record of a timeout formats the whole dict of
  parameters, which the event keeps as it is.
\<close>

datatype locator = ByRole string string | ByLabel string

datatype event =
    Launch
  | NewPage
  | Goto string
  | WaitForLoadState string
  | Content
  | GetByRole string string
  | GetByLabel string
  | WaitFor locator nat
  | Click locator
  | Fill locator string
  | WaitForTimeout nat
  | Screenshot string
  | Close
  | LogInfo string
  | LogWarning string
  | LogError pdict

definition invalid_format :: string where
  "invalid_format =
     ''Invalid instruction format. Use: send email to email about subject saying 'body'' @ [quote]"

text \<open>Lines 19 to 27: the match on the lowered instruction and its three groups.\<close>

definition parse_instruction :: "string \<Rightarrow> exn + (string \<times> string \<times> string)" where
  "parse_instruction instruction =
     (case re_match instruction_re (lower instruction) of
        None \<Rightarrow> Inl (ValueError invalid_format)
      | Some chunks \<Rightarrow>
          Inr (group 1 instruction_re chunks,
               group 2 instruction_re chunks,
               group 3 instruction_re chunks))"

text \<open>Lines 30 to 45: the label table and \<open>.get(provider, {})\<close>.\<close>

definition label_table :: "(string \<times> pdict) list" where
  "label_table =
     [(''gmail'',
         [(''compose_button'', ''Compose''),
          (''to_label'', ''To''),
          (''subject_label'', ''Subject''),
          (''body_label'', ''Message Body''),
          (''send_button'', ''Send'')]),
      (''outlook'',
         [(''compose_button'', ''New message''),
          (''to_label'', ''To''),
          (''subject_label'', ''Add a subject''),
          (''body_label'', ''Message body''),
          (''send_button'', ''Send'')])]"

definition provider_labels :: "string \<Rightarrow> pdict" where
  "provider_labels provider =
     (case map_of label_table provider of None \<Rightarrow> [] | Some d \<Rightarrow> d)"

text \<open>\<open>d[k]\<close> raises \<open>KeyError\<close> on a missing key.\<close>

definition getitem :: "pdict \<Rightarrow> string \<Rightarrow> exn + string" where
  "getitem d k = (case map_of d k of None \<Rightarrow> Inl (KeyError k) | Some v \<Rightarrow> Inr v)"

definition bind_exn :: "exn + 'a \<Rightarrow> ('a \<Rightarrow> exn + 'b) \<Rightarrow> exn + 'b" where
  "bind_exn r k = (case r of Inl e \<Rightarrow> Inl e | Inr v \<Rightarrow> k v)"

text \<open>Lines 51 to 57: the list \<open>steps\<close>.\<close>

definition build_steps :: "pdict \<Rightarrow> string \<Rightarrow> string \<Rightarrow> string \<Rightarrow> exn + step list" where
  "build_steps labels to_email subject body =
     bind_exn (getitem labels ''compose_button'') (\<lambda>compose.
     bind_exn (getitem labels ''to_label'') (\<lambda>to_label.
     bind_exn (getitem labels ''subject_label'') (\<lambda>subject_label.
     bind_exn (getitem labels ''body_label'') (\<lambda>body_label.
     bind_exn (getitem labels ''send_button'') (\<lambda>send.
       Inr [(''click_button'', [(''name'', compose), (''role'', ''button'')]),
            (''fill_input'', [(''label'', to_label), (''value'', to_email)]),
            (''fill_input'', [(''label'', subject_label), (''value'', subject)]),
            (''fill_input'', [(''label'', body_label), (''value'', body)]),
            (''click_button'', [(''name'', send), (''role'', ''button'')])])))))"

text \<open>
  Lines 60 to 67: for each step with a key \<open>label\<close>, the lowered label is looked up as
  a key of \<open>labels\<close> and the value found is searched in the lowered HTML; a value that is
  absent logs a warning.
\<close>

fun check_labels :: "pdict \<Rightarrow> string \<Rightarrow> step list \<Rightarrow> event list \<Rightarrow> event list \<times> exn option" where
  "check_labels labels html_content [] tr = (tr, None)"
| "check_labels labels html_content (st # rest) tr =
     (case map_of (snd st) ''label'' of
        None \<Rightarrow> check_labels labels html_content rest tr
      | Some lab \<Rightarrow>
          (case getitem labels (lower lab) of
             Inl e \<Rightarrow> (tr, Some e)
           | Inr v \<Rightarrow>
               if \<not> contains (lower html_content) v
               then check_labels labels html_content rest
                      (tr @ [LogWarning (''Label '' @ lab @ '' not found in HTML, may need adjustment'')])
               else check_labels labels html_content rest tr))"

definition mock_llm_reason ::
  "string \<Rightarrow> string \<Rightarrow> string \<Rightarrow> event list \<Rightarrow> event list \<times> (exn + step list)" where
  "mock_llm_reason instruction html_content provider tr =
     (case parse_instruction instruction of
        Inl e \<Rightarrow> (tr, Inl e)
      | Inr (to_email, subject, body) \<Rightarrow>
          (let labels = provider_labels provider in
           if labels = [] then (tr, Inl (ValueError ''Unsupported provider''))
           else
             (case build_steps labels to_email subject body of
                Inl e \<Rightarrow> (tr, Inl e)
              | Inr steps \<Rightarrow>
                  (case check_labels labels html_content steps tr of
                     (tr', Some e) \<Rightarrow> (tr', Inl e)
                   | (tr', None) \<Rightarrow> (tr', Inr steps)))))"


section \<open>GenericUIAgent\<close>

text \<open>
  The browser and the page are outside the program. A session says, for each call and
  the events before it, whether the call returns or raises, and what \<open>page.content()\<close>
  returns. Logging never raises.
\<close>

record session =
  raises :: "event list \<Rightarrow> event \<Rightarrow> exn option"
  page_content :: "event list \<Rightarrow> string"

fun is_log :: "event \<Rightarrow> bool" where
  "is_log (LogInfo m) = True"
| "is_log (LogWarning m) = True"
| "is_log (LogError p) = True"
| "is_log e = False"

text \<open>A run of calls in sequence, left at the first one that raises.\<close>

fun perform :: "session \<Rightarrow> event list \<Rightarrow> event list \<Rightarrow> event list \<times> exn option" where
  "perform ses [] tr = (tr, None)"
| "perform ses (e # es) tr =
     (if is_log e then perform ses es (tr @ [e])
      else case raises ses tr e of
             None \<Rightarrow> perform ses es (tr @ [e])
           | Some x \<Rightarrow> (tr @ [e], Some x))"

record agent =
  provider :: string
  url :: string

definition url_table :: "(string \<times> string) list" where
  "url_table =
     [(''gmail'', ''https://mail.google.com''),
      (''outlook'', ''https://outlook.live.com/mail/'')]"

text \<open>\<open>__init__\<close>\<close>

definition init :: "string \<Rightarrow> exn + agent" where
  "init p =
     (case map_of url_table p of
        None \<Rightarrow> Inl (ValueError ''Unsupported provider'')
      | Some u \<Rightarrow>
          if u = [] then Inl (ValueError ''Unsupported provider'')
          else Inr \<lparr>provider = p, url = u\<rparr>)"

text \<open>The body of the \<open>try\<close> of lines 108 to 123, for one step.\<close>

definition do_step :: "session \<Rightarrow> step \<Rightarrow> event list \<Rightarrow> event list \<times> exn option" where
  "do_step ses st tr =
     (let action = fst st; params = snd st in
      if action = ''click_button'' then
        (case getitem params ''role'' of
           Inl e \<Rightarrow> (tr, Some e)
         | Inr role \<Rightarrow>
             (case getitem params ''name'' of
                Inl e \<Rightarrow> (tr, Some e)
              | Inr name \<Rightarrow>
                  perform ses
                    [GetByRole role name,
                     WaitFor (ByRole role name) 5000,
                     Click (ByRole role name),
                     LogInfo (''Clicked button: '' @ name),
                     WaitForTimeout 2000] tr))
      else if action = ''fill_input'' then
        (case getitem params ''label'' of
           Inl e \<Rightarrow> (tr, Some e)
         | Inr label \<Rightarrow>
             (case perform ses [GetByLabel label, WaitFor (ByLabel label) 5000] tr of
                (tr1, Some e) \<Rightarrow> (tr1, Some e)
              | (tr1, None) \<Rightarrow>
                  (case getitem params ''value'' of
                     Inl e \<Rightarrow> (tr1, Some e)
                   | Inr v \<Rightarrow>
                       perform ses
                         [Fill (ByLabel label) v,
                          LogInfo (''Filled input '' @ label @ '' with '' @ v),
                          WaitForTimeout 2000] tr1)))
      else perform ses [WaitForTimeout 2000] tr)"

text \<open>
  The loop of lines 107 to 128. A \<open>TimeoutError\<close> is logged, a screenshot is taken and
  the error is raised again; any other exception leaves the loop at once.
\<close>

fun run_steps :: "session \<Rightarrow> string \<Rightarrow> step list \<Rightarrow> event list \<Rightarrow> event list \<times> exn option" where
  "run_steps ses prov [] tr = (tr, None)"
| "run_steps ses prov (st # rest) tr =
     (case do_step ses st tr of
        (tr1, None) \<Rightarrow> run_steps ses prov rest tr1
      | (tr1, Some TimeoutError) \<Rightarrow>
          (case perform ses [LogError (snd st), Screenshot (''error_'' @ prov @ ''.png'')] tr1 of
             (tr2, None) \<Rightarrow> (tr2, Some TimeoutError)
           | (tr2, Some e) \<Rightarrow> (tr2, Some e))
      | (tr1, Some e) \<Rightarrow> (tr1, Some e))"

text \<open>
  \<open>execute\<close>, from a fresh browser. Entering and leaving the context manager
  \<open>sync_playwright\<close> is left out, and so is the field \<open>page\<close> of the agent, which
  only holds the page the calls go to.
\<close>

definition execute :: "session \<Rightarrow> agent \<Rightarrow> string \<Rightarrow> event list \<times> exn option" where
  "execute ses ag instruction =
     (case perform ses
             [Launch, NewPage, Goto (url ag),
              LogInfo (''Navigated to '' @ provider ag @ '' at '' @ url ag),
              WaitForLoadState ''networkidle''] [] of
        (tr, Some e) \<Rightarrow> (tr, Some e)
      | (tr, None) \<Rightarrow>
          (case perform ses [Content] tr of
             (tr1, Some e) \<Rightarrow> (tr1, Some e)
           | (tr1, None) \<Rightarrow>
               (case mock_llm_reason instruction (lower (page_content ses tr)) (provider ag) tr1 of
                  (tr2, Inl e) \<Rightarrow> (tr2, Some e)
                | (tr2, Inr steps) \<Rightarrow>
                    (case run_steps ses (provider ag) steps tr2 of
                       (tr3, Some e) \<Rightarrow> (tr3, Some e)
                     | (tr3, None) \<Rightarrow>
                         perform ses [LogInfo ''Task completed successfully'', Close] tr3))))"


section \<open>Code points beyond Latin-1\<close>

text \<open>
  Above U+00FF \<open>str.lower\<close> does not keep the length of a string: U+0130 lowers to
  \<open>i\<close> followed by U+0307. Here the parser of lines 19 to 27 is given on code points
  (natural numbers), with the same matcher and the same pattern. The tables of
  \<open>str.lower\<close> and of \<open>\w\<close> are written out for Basic Latin, the Latin-1 Supplement
  and Latin Extended-A, that is below U+0180, where lowering works code point by code
  point; \<open>\w\<close> is also given at U+0307, which lowering can produce. An instruction with
  a code point from U+0180 on is not covered.
\<close>

definition in_tables :: "nat \<Rightarrow> bool" where
  "in_tables n = (n < 384)"

definition lower_cp :: "nat \<Rightarrow> nat list" where
  "lower_cp n =
     (if (65 \<le> n \<and> n \<le> 90) \<or> (192 \<le> n \<and> n \<le> 214) \<or> (216 \<le> n \<and> n \<le> 222) then [n + 32]
      else if n = 304 then [105, 775]
      else if n = 376 then [255]
      else if (256 \<le> n \<and> n \<le> 310 \<and> even n) \<or> (313 \<le> n \<and> n \<le> 327 \<and> odd n)
              \<or> (330 \<le> n \<and> n \<le> 374 \<and> even n) \<or> (377 \<le> n \<and> n \<le> 381 \<and> odd n) then [n + 1]
      else [n])"

definition lower_cps :: "nat list \<Rightarrow> nat list" where
  "lower_cps s = concat (map lower_cp s)"

definition is_word_cp :: "nat \<Rightarrow> bool" where
  "is_word_cp n =
     ((48 \<le> n \<and> n \<le> 57) \<or> (65 \<le> n \<and> n \<le> 90) \<or> n = 95 \<or> (97 \<le> n \<and> n \<le> 122)
      \<or> n = 170 \<or> n = 178 \<or> n = 179 \<or> n = 181 \<or> n = 185 \<or> n = 186
      \<or> (188 \<le> n \<and> n \<le> 190) \<or> (192 \<le> n \<and> n \<le> 214)
      \<or> (216 \<le> n \<and> n \<le> 246) \<or> (248 \<le> n \<and> n \<le> 383))"

definition addr_char_cp :: "nat \<Rightarrow> bool" where
  "addr_char_cp n = (is_word_cp n \<or> n = 46 \<or> n = 45)"

definition any_char_cp :: "nat \<Rightarrow> bool" where
  "any_char_cp n = (n \<noteq> 10)"

text \<open>The code points of a string of the embedding.\<close>

definition code_points :: "string \<Rightarrow> nat list" where
  "code_points s = map of_char s"

definition instruction_re_cp :: "(nat \<times> nat atom) list" where
  "instruction_re_cp =
     [(0, Lit (code_points ''send email to '')),
      (1, Rep 1 addr_char_cp), (1, Lit (code_points ''@'')), (1, Rep 1 addr_char_cp),
      (0, Lit (code_points '' about '')),
      (2, Rep 0 any_char_cp),
      (0, Lit (code_points ('' saying '' @ [quote]))),
      (3, Rep 1 any_char_cp),
      (0, Lit (code_points [quote]))]"

datatype 'a covered = Not_covered | Covered 'a

definition parse_instruction_cp ::
  "nat list \<Rightarrow> (exn + (nat list \<times> nat list \<times> nat list)) covered" where
  "parse_instruction_cp instruction =
     (if list_all in_tables instruction then
        Covered
          (case re_match instruction_re_cp (lower_cps instruction) of
             None \<Rightarrow> Inl (ValueError invalid_format)
           | Some chunks \<Rightarrow>
               Inr (group 1 instruction_re_cp chunks,
                    group 2 instruction_re_cp chunks,
                    group 3 instruction_re_cp chunks))
      else Not_covered)"


section \<open>Properties: vocabulary\<close>

text \<open>What each atom of a pattern accepts.\<close>

fun atom_ok :: "'c atom \<Rightarrow> 'c list \<Rightarrow> bool" where
  "atom_ok (Lit l) u = (u = l)"
| "atom_ok (Rep lo c) u = (lo \<le> length u \<and> list_all c u)"

text \<open>
  The shape \<open>[\w\.-]+@[\w\.-]+\<close> of a recipient, and the sentence of the grammar:
  \<open>send email to <address> about <subject> saying '<body>'\<close>.
\<close>

definition addr_shape :: "string \<Rightarrow> bool" where
  "addr_shape a =
     (case dropWhile addr_char a of
        [] \<Rightarrow> False
      | c # d \<Rightarrow> c = CHR ''@'' \<and> takeWhile addr_char a \<noteq> [] \<and> d \<noteq> [] \<and> list_all addr_char d)"

definition sentence :: "string \<Rightarrow> string \<Rightarrow> string \<Rightarrow> string" where
  "sentence a subj body =
     ''send email to '' @ a @ '' about '' @ subj @ '' saying '' @ [quote] @ body @ [quote]"

definition starts_with_sentence :: "string \<Rightarrow> bool" where
  "starts_with_sentence t =
     (\<exists>a subj body rest.
        t = sentence a subj body @ rest \<and> addr_shape a \<and> list_all any_char subj \<and>
        body \<noteq> [] \<and> list_all any_char body)"

text \<open>
  The calls of one step of a plan when each of them returns, and the locator that a
  step resolves and waits for.
\<close>

definition step_events :: "step \<Rightarrow> event list" where
  "step_events st =
     (if fst st = ''click_button'' then
        (case (getitem (snd st) ''role'', getitem (snd st) ''name'') of
           (Inr role, Inr name) \<Rightarrow>
             [GetByRole role name, WaitFor (ByRole role name) 5000, Click (ByRole role name),
              LogInfo (''Clicked button: '' @ name), WaitForTimeout 2000]
         | _ \<Rightarrow> [])
      else if fst st = ''fill_input'' then
        (case (getitem (snd st) ''label'', getitem (snd st) ''value'') of
           (Inr label, Inr v) \<Rightarrow>
             [GetByLabel label, WaitFor (ByLabel label) 5000, Fill (ByLabel label) v,
              LogInfo (''Filled input '' @ label @ '' with '' @ v), WaitForTimeout 2000]
         | _ \<Rightarrow> [])
      else [WaitForTimeout 2000])"

definition step_locator :: "step \<Rightarrow> (event \<times> locator) option" where
  "step_locator st =
     (if fst st = ''click_button'' then
        (case (getitem (snd st) ''role'', getitem (snd st) ''name'') of
           (Inr role, Inr name) \<Rightarrow> Some (GetByRole role name, ByRole role name)
         | _ \<Rightarrow> None)
      else if fst st = ''fill_input'' then
        (case getitem (snd st) ''label'' of
           Inr label \<Rightarrow> Some (GetByLabel label, ByLabel label)
         | _ \<Rightarrow> None)
      else None)"

definition prelude :: "agent \<Rightarrow> event list" where
  "prelude ag =
     [Launch, NewPage, Goto (url ag),
      LogInfo (''Navigated to '' @ provider ag @ '' at '' @ url ag),
      WaitForLoadState ''networkidle'', Content]"

text \<open>Inputs and sessions used as examples.\<close>

definition example_instruction :: string where
  "example_instruction =
     ''send email to joe@example.com about Meeting saying 'Hello from automation'' @ [quote]"

definition gmail_agent :: agent where
  "gmail_agent = \<lparr>provider = ''gmail'', url = ''https://mail.google.com''\<rparr>"

definition gmail_plan :: "step list" where
  "gmail_plan =
     [(''click_button'', [(''name'', ''Compose''), (''role'', ''button'')]),
      (''fill_input'', [(''label'', ''To''), (''value'', ''joe@example.com'')]),
      (''fill_input'', [(''label'', ''Subject''), (''value'', ''meeting'')]),
      (''fill_input'', [(''label'', ''Message Body''), (''value'', ''hello from automation'')]),
      (''click_button'', [(''name'', ''Send''), (''role'', ''button'')])]"

text \<open>Every call returns.\<close>

definition all_return :: session where
  "all_return = \<lparr>raises = (\<lambda>tr e. None), page_content = (\<lambda>tr. ''<html></html>'')\<rparr>"

text \<open>
  The address made of U+0130, \<open>@\<close> and \<open>b\<close>, and the instruction that sends to it.
\<close>

definition dotted_address :: "nat list" where
  "dotted_address = [304] @ code_points ''@b''"

definition dotted_instruction :: "nat list" where
  "dotted_instruction =
     code_points ''send email to '' @ dotted_address @
     code_points ('' about s saying 'b'' @ [quote])"

text \<open>The subject field never becomes visible and the screenshot fails too.\<close>

definition capture_fails :: session where
  "capture_fails =
     \<lparr>raises = (\<lambda>tr e. if e = WaitFor (ByLabel ''Subject'') 5000 then Some TimeoutError
                        else if e = Screenshot ''error_gmail.png'' then Some PlaywrightError
                        else None),
      page_content = (\<lambda>tr. ''<html></html>'')\<rparr>"


text \<open>The click on the compose button times out and the screenshot fails too.\<close>

definition click_hangs :: session where
  "click_hangs =
     \<lparr>raises = (\<lambda>tr e. if e = Click (ByRole ''button'' ''Compose'') then Some TimeoutError
                        else if e = Screenshot ''error_gmail.png'' then Some PlaywrightError
                        else None),
      page_content = (\<lambda>tr. ''<html></html>'')\<rparr>"


section \<open>Lemmas: characters and the matcher\<close>



lemma first_down_None: "first_down f lo k = None \<longleftrightarrow> (\<forall>j. lo \<le> j \<and> j \<le> k \<longrightarrow> f j = None)"
proof (induction k)
  case 0
  show ?case by auto
next
  case (Suc k)
  show ?case
  proof (cases "f (Suc k)")
    case None
    have "(\<forall>j. lo \<le> j \<and> j \<le> Suc k \<longrightarrow> f j = None) \<longleftrightarrow> (\<forall>j. lo \<le> j \<and> j \<le> k \<longrightarrow> f j = None)"
      using None by (auto simp: le_Suc_eq)
    then show ?thesis using None Suc by auto
  next
    case (Some r)
    then show ?thesis by (auto simp: not_less)
  qed
qed

lemma first_down_Some:
  "first_down f lo k = Some r \<Longrightarrow>
     \<exists>j. lo \<le> j \<and> j \<le> k \<and> f j = Some r \<and> (\<forall>i. j < i \<and> i \<le> k \<longrightarrow> f i = None)"
proof (induction k)
  case 0
  then show ?case by (auto split: if_splits)
next
  case (Suc k)
  show ?case
  proof (cases "f (Suc k)")
    case None
    with Suc.prems have "first_down f lo k = Some r"
      by (auto split: if_splits)
    from Suc.IH [OF this] obtain j where
      j: "lo \<le> j" "j \<le> k" "f j = Some r" "\<forall>i. j < i \<and> i \<le> k \<longrightarrow> f i = None" by blast
    have "\<forall>i. j < i \<and> i \<le> Suc k \<longrightarrow> f i = None"
      using j(4) None by (auto simp: le_Suc_eq)
    with j show ?thesis by (intro exI [of _ j]) simp
  next
    case (Some r')
    with Suc.prems have "r' = r" "lo \<le> Suc k"
      by (auto split: if_splits)
    with Some have "lo \<le> Suc k \<and> Suc k \<le> Suc k \<and> f (Suc k) = Some r \<and>
       (\<forall>i. Suc k < i \<and> i \<le> Suc k \<longrightarrow> f i = None)" by auto
    then show ?thesis by blast
  qed
qed

lemma re_match_sound:
  "re_match re s = Some chunks \<Longrightarrow>
     list_all2 (\<lambda>a u. atom_ok (snd a) u) re chunks \<and> (\<exists>rest. s = concat chunks @ rest)"
proof (induction re arbitrary: s chunks)
  case Nil
  then show ?case by simp
next
  case (Cons a as)
  show ?case
  proof (cases "snd a")
    case (Lit l)
    with Cons.prems obtain cs where
      l: "take (length l) s = l" and cs: "re_match as (drop (length l) s) = Some cs"
      and ch: "chunks = l # cs"
      by (auto split: if_splits)
    from Cons.IH [OF cs] obtain rest where
      "list_all2 (\<lambda>a u. atom_ok (snd a) u) as cs" "drop (length l) s = concat cs @ rest"
      by blast
    moreover have "s = l @ drop (length l) s" using l by (metis append_take_drop_id)
    ultimately show ?thesis using Lit ch by auto
  next
    case (Rep lo c)
    with Cons.prems have
      "first_down (\<lambda>k. map_option ((#) (take k s)) (re_match as (drop k s))) lo
         (length (takeWhile c s)) = Some chunks" by simp
    from first_down_Some [OF this] obtain j cs where
      j: "lo \<le> j" "j \<le> length (takeWhile c s)" and cs: "re_match as (drop j s) = Some cs"
      and ch: "chunks = take j s # cs"
      by auto
    from Cons.IH [OF cs] obtain rest where
      r: "list_all2 (\<lambda>a u. atom_ok (snd a) u) as cs" "drop j s = concat cs @ rest"
      by blast
    have "take j s = take j (takeWhile c s @ dropWhile c s)" by simp
    also have "\<dots> = take j (takeWhile c s)" using j(2) by (simp del: takeWhile_dropWhile_id)
    finally have "set (take j s) \<subseteq> set (takeWhile c s)" by (metis set_take_subset)
    then have all: "list_all c (take j s)"
      by (auto simp: list_all_iff dest: set_takeWhileD)
    have len: "length (take j s) = j"
      using j(2) length_takeWhile_le [of c s] by simp
    have "s = take j s @ drop j s" by simp
    with r all len j(1) show ?thesis using Rep ch by auto
  qed
qed

lemma re_match_complete:
  "list_all2 (\<lambda>a u. atom_ok (snd a) u) re chunks \<Longrightarrow> s = concat chunks @ rest \<Longrightarrow>
     re_match re s \<noteq> None"
proof (induction re arbitrary: s chunks)
  case Nil
  then show ?case by simp
next
  case (Cons a as)
  from Cons.prems(1) obtain u cs where
    ch: "chunks = u # cs" and u: "atom_ok (snd a) u"
    and cs: "list_all2 (\<lambda>a u. atom_ok (snd a) u) as cs"
    by (auto simp: list_all2_Cons1)
  have s: "s = u @ (concat cs @ rest)" using Cons.prems(2) ch by simp
  have tl: "re_match as (drop (length u) s) \<noteq> None"
    using Cons.IH [OF cs, of "drop (length u) s"] s by simp
  show ?case
  proof (cases "snd a")
    case (Lit l)
    with u have "u = l" by simp
    with s tl show ?thesis using Lit by auto
  next
    case (Rep lo c)
    let ?f = "\<lambda>k. map_option ((#) (take k s)) (re_match as (drop k s))"
    from u Rep have lo: "lo \<le> length u" and all: "list_all c u" by simp_all
    have "takeWhile c s = u @ takeWhile c (concat cs @ rest)"
      using all s by (simp add: list_all_iff takeWhile_append2)
    then have "length u \<le> length (takeWhile c s)" by simp
    moreover have "?f (length u) \<noteq> None" using tl by simp
    ultimately have "first_down ?f lo (length (takeWhile c s)) \<noteq> None"
      using lo by (auto simp: first_down_None)
    then show ?thesis using Rep by simp
  qed
qed



lemma not_addr_char_at: "\<not> addr_char (CHR ''@'')"
  by (simp add: addr_char_def is_word_def)

lemma addr_shape_iff:
  "addr_shape a \<longleftrightarrow>
     (\<exists>l d. a = l @ CHR ''@'' # d \<and> l \<noteq> [] \<and> d \<noteq> [] \<and> list_all addr_char l \<and> list_all addr_char d)"
proof
  assume sh: "addr_shape a"
  then obtain d where d: "dropWhile addr_char a = CHR ''@'' # d"
    and l: "takeWhile addr_char a \<noteq> []" and dn: "d \<noteq> []" and da: "list_all addr_char d"
    by (auto simp: addr_shape_def split: list.splits)
  have "a = takeWhile addr_char a @ CHR ''@'' # d"
    using d by (metis takeWhile_dropWhile_id)
  moreover have "list_all addr_char (takeWhile addr_char a)"
    by (auto simp: list_all_iff dest: set_takeWhileD)
  ultimately show "\<exists>l d. a = l @ CHR ''@'' # d \<and> l \<noteq> [] \<and> d \<noteq> [] \<and> list_all addr_char l \<and> list_all addr_char d"
    using l dn da by blast
next
  assume "\<exists>l d. a = l @ CHR ''@'' # d \<and> l \<noteq> [] \<and> d \<noteq> [] \<and> list_all addr_char l \<and> list_all addr_char d"
  then obtain l d where a: "a = l @ CHR ''@'' # d" and l: "l \<noteq> []" and d: "d \<noteq> []"
    and la: "list_all addr_char l" and da: "list_all addr_char d" by blast
  have "takeWhile addr_char a = l" "dropWhile addr_char a = CHR ''@'' # d"
    using a la not_addr_char_at by (simp_all add: list_all_iff takeWhile_append2 dropWhile_append2)
  then show "addr_shape a" using l d da by (simp add: addr_shape_def)
qed

lemma parse_instruction_cases:
  "parse_instruction s = Inl (ValueError invalid_format) \<or> (\<exists>t. parse_instruction s = Inr t)"
  by (simp add: parse_instruction_def split: option.splits)

lemma parse_sound:
  assumes "parse_instruction s = Inr (a, subj, body)"
  shows "addr_shape a \<and> list_all any_char subj \<and> body \<noteq> [] \<and> list_all any_char body \<and>
         (\<exists>rest. lower s = sentence a subj body @ rest)"
proof -
  from assms obtain chunks where m: "re_match instruction_re (lower s) = Some chunks"
    and a: "a = group 1 instruction_re chunks"
    and subj: "subj = group 2 instruction_re chunks"
    and body: "body = group 3 instruction_re chunks"
    by (auto simp: parse_instruction_def split: option.splits)
  from re_match_sound [OF m] obtain rest where
    ok: "list_all2 (\<lambda>a u. atom_ok (snd a) u) instruction_re chunks"
    and s: "lower s = concat chunks @ rest" by blast
  from ok obtain l d where
    ch: "chunks = [''send email to '', l, ''@'', d, '' about '', subj, '' saying '' @ [quote], body, [quote]]"
    and l: "1 \<le> length l" "list_all addr_char l"
    and d: "1 \<le> length d" "list_all addr_char d"
    and sb: "list_all any_char subj" "1 \<le> length body" "list_all any_char body"
    and a': "a = l @ ''@'' @ d"
    unfolding instruction_re_def a subj body group_def
    by (auto simp: list_all2_Cons1)
  have "addr_shape a"
    unfolding addr_shape_iff using a' l d by (intro exI [of _ l] exI [of _ d]) auto
  moreover have "lower s = sentence a subj body @ rest"
    using s ch a' by (simp add: sentence_def)
  moreover have "body \<noteq> []" using sb(2) by auto
  ultimately show ?thesis using sb by blast
qed

lemma parse_complete:
  assumes "lower s = sentence a subj body @ rest" and "addr_shape a"
    and "list_all any_char subj" and "body \<noteq> []" and "list_all any_char body"
  shows "\<exists>t. parse_instruction s = Inr t"
proof -
  from assms(2) obtain l d where a: "a = l @ CHR ''@'' # d" and l: "l \<noteq> []" and d: "d \<noteq> []"
    and la: "list_all addr_char l" and da: "list_all addr_char d"
    unfolding addr_shape_iff by blast
  let ?chunks = "[''send email to '', l, ''@'', d, '' about '', subj, '' saying '' @ [quote], body, [quote]]"
  have "list_all2 (\<lambda>a u. atom_ok (snd a) u) instruction_re ?chunks"
    using l d la da assms(3-5) by (simp add: instruction_re_def Suc_le_eq)
  moreover have "lower s = concat ?chunks @ rest"
    using assms(1) a by (simp add: sentence_def)
  ultimately have "re_match instruction_re (lower s) \<noteq> None"
    by (rule re_match_complete)
  then show ?thesis by (auto simp: parse_instruction_def)
qed

lemma parse_fails_iff:
  "parse_instruction s = Inl (ValueError invalid_format) \<longleftrightarrow> \<not> starts_with_sentence (lower s)"
proof
  assume f: "parse_instruction s = Inl (ValueError invalid_format)"
  show "\<not> starts_with_sentence (lower s)"
  proof
    assume "starts_with_sentence (lower s)"
    then obtain a subj body rest where "lower s = sentence a subj body @ rest" "addr_shape a"
      "list_all any_char subj" "body \<noteq> []" "list_all any_char body"
      unfolding starts_with_sentence_def by blast
    from parse_complete [OF this] f show False by auto
  qed
next
  assume n: "\<not> starts_with_sentence (lower s)"
  show "parse_instruction s = Inl (ValueError invalid_format)"
  proof (rule ccontr)
    assume "parse_instruction s \<noteq> Inl (ValueError invalid_format)"
    with parse_instruction_cases [of s] obtain a subj body where
      "parse_instruction s = Inr (a, subj, body)" by (metis prod_cases3)
    from parse_sound [OF this] have "starts_with_sentence (lower s)"
      unfolding starts_with_sentence_def by blast
    with n show False by simp
  qed
qed


section \<open>Lemmas: the executor\<close>

lemma perform_ok: "perform ses es tr = (tr', None) \<Longrightarrow> tr' = tr @ es"
proof (induction es arbitrary: tr)
  case Nil
  then show ?case by simp
next
  case (Cons e es)
  from Cons.prems have "perform ses es (tr @ [e]) = (tr', None)"
    by (auto split: if_splits option.splits)
  from Cons.IH [OF this] show ?case by simp
qed

lemma perform_prefix: "\<exists>n. fst (perform ses es tr) = tr @ take n es"
proof (induction es arbitrary: tr)
  case Nil
  show ?case by simp
next
  case (Cons e es)
  from Cons [of "tr @ [e]"] obtain n where
    n: "fst (perform ses es (tr @ [e])) = (tr @ [e]) @ take n es" by blast
  have 1: "tr @ [e] = tr @ take (Suc 0) (e # es)" by simp
  have 2: "(tr @ [e]) @ take n es = tr @ take (Suc n) (e # es)" by simp
  show ?case
  proof (cases "is_log e \<or> raises ses tr e = None")
    case True
    then have "fst (perform ses (e # es) tr) = tr @ take (Suc n) (e # es)"
      using n 2 by auto
    then show ?thesis by blast
  next
    case False
    then have "fst (perform ses (e # es) tr) = tr @ take (Suc 0) (e # es)"
      by auto
    then show ?thesis by blast
  qed
qed

lemma perform_all_return:
  "\<forall>tr e. raises ses tr e = None \<Longrightarrow> perform ses es tr = (tr @ es, None)"
  by (induction es arbitrary: tr) auto

lemma do_step_ok:
  assumes "do_step ses st tr = (tr', None)"
  shows "tr' = tr @ step_events st \<and> step_events st \<noteq> [] \<and>
         last (step_events st) = WaitForTimeout 2000"
proof -
  consider "fst st = ''click_button''" | "fst st \<noteq> ''click_button''" "fst st = ''fill_input''"
    | "fst st \<noteq> ''click_button''" "fst st \<noteq> ''fill_input''" by blast
  then show ?thesis
  proof cases
    case 1
    with assms show ?thesis
      by (auto simp: do_step_def step_events_def Let_def simp del: perform.simps
               split: sum.splits dest!: perform_ok)
  next
    case 2
    with assms show ?thesis
      by (auto simp: do_step_def step_events_def Let_def simp del: perform.simps
               split: sum.splits prod.splits option.splits dest!: perform_ok)
  next
    case 3
    with assms show ?thesis
      by (auto simp: do_step_def step_events_def Let_def simp del: perform.simps
               dest!: perform_ok)
  qed
qed

lemma run_steps_append:
  "run_steps ses prov pre tr = (tr1, None) \<Longrightarrow>
     run_steps ses prov (pre @ rest) tr = run_steps ses prov rest tr1"
proof (induction pre arbitrary: tr)
  case Nil
  then show ?case by simp
next
  case (Cons st pre)
  from Cons.prems obtain tr0 where
    d: "do_step ses st tr = (tr0, None)" and r: "run_steps ses prov pre tr0 = (tr1, None)"
    by (auto split: prod.splits option.splits exn.splits)
  from Cons.IH [OF r] d show ?case by simp
qed

lemma run_steps_step_fails:
  assumes "run_steps ses prov pre tr = (tr1, None)"
    and "do_step ses st tr1 = (tr2, Some x)"
  shows "run_steps ses prov (pre @ st # post) tr =
           (if x = TimeoutError then
              (tr2 @ [LogError (snd st), Screenshot (''error_'' @ prov @ ''.png'')],
               Some (case raises ses (tr2 @ [LogError (snd st)])
                            (Screenshot (''error_'' @ prov @ ''.png'')) of
                       None \<Rightarrow> TimeoutError | Some e \<Rightarrow> e))
            else (tr2, Some x))"
proof -
  have "run_steps ses prov (st # post) tr1 =
           (if x = TimeoutError then
              (tr2 @ [LogError (snd st), Screenshot (''error_'' @ prov @ ''.png'')],
               Some (case raises ses (tr2 @ [LogError (snd st)])
                            (Screenshot (''error_'' @ prov @ ''.png'')) of
                       None \<Rightarrow> TimeoutError | Some e \<Rightarrow> e))
            else (tr2, Some x))"
    using assms(2) by (cases x) (simp_all split: option.splits)
  then show ?thesis using run_steps_append [OF assms(1)] by simp
qed

lemma do_step_wait_raises:
  assumes "step_locator st = Some (res, loc)" and "raises ses tr res = None"
    and "raises ses (tr @ [res]) (WaitFor loc 5000) = Some x"
  shows "do_step ses st tr = (tr @ [res, WaitFor loc 5000], Some x)"
proof (cases "fst st = ''click_button''")
  case True
  with assms show ?thesis
    by (auto simp: do_step_def step_locator_def Let_def split: sum.splits)
next
  case False
  with assms show ?thesis
    by (auto simp: do_step_def step_locator_def Let_def split: sum.splits if_splits)
qed


section \<open>Lemmas: mock_llm_reason\<close>

lemma lower_To: "lower ''To'' = ''to''"
  by code_simp

lemma mock_llm_reason_supported:
  assumes "parse_instruction instruction = Inr t"
    and "prov = ''gmail'' \<or> prov = ''outlook''"
  shows "mock_llm_reason instruction html prov tr = (tr, Inl (KeyError ''to''))"
proof -
  obtain to_email subject body where t: "t = (to_email, subject, body)" by (cases t)
  from assms(2) show ?thesis
  proof
    assume "prov = ''gmail''"
    then show ?thesis
      using assms(1) t
      by (simp add: mock_llm_reason_def provider_labels_def label_table_def build_steps_def
                    bind_exn_def getitem_def lower_To)
  next
    assume "prov = ''outlook''"
    then show ?thesis
      using assms(1) t
      by (simp add: mock_llm_reason_def provider_labels_def label_table_def build_steps_def
                    bind_exn_def getitem_def lower_To)
  qed
qed

lemma parse_example:
  "parse_instruction example_instruction =
     Inr (''joe@example.com'', ''meeting'', ''hello from automation'')"
  by code_simp


section \<open>The instruction parser\<close>

text \<open>
  C1. The claim: the parsed subject and body are the text of the instruction as written.
  The pattern is matched against the lowered instruction, so the groups are taken from
  the lowered text: on the instruction of the usage message the subject \<open>Meeting\<close>
  comes out as \<open>meeting\<close> and the body \<open>Hello from automation\<close> as
  \<open>hello from automation\<close>.
\<close>

theorem parse_lowers_subject_and_body:
  "parse_instruction example_instruction =
     Inr (''joe@example.com'', ''meeting'', ''hello from automation'')"
  unfolding example_instruction_def by code_simp

text \<open>
  C5. The claim: every instruction outside the grammar, trailing text included, is
  rejected. The pattern is only anchored at the start. What holds: the parser raises the
  invalid-format error exactly when the lowered instruction does not start with a
  sentence of the grammar, and it raises nothing else.
\<close>

theorem parse_rejects_exactly_non_sentences:
  "(parse_instruction instruction = Inl (ValueError invalid_format)) =
     (\<not> starts_with_sentence (lower instruction)) \<and>
   (parse_instruction instruction = Inl (ValueError invalid_format) \<or>
    (\<exists>t. parse_instruction instruction = Inr t))"
  using parse_fails_iff [of instruction] parse_instruction_cases [of instruction] by blast


theorem parse_rejects_exactly_non_sentences_witness:
  "\<not> starts_with_sentence (lower ''send email to joe@example.com about Meeting saying 'Hello'')"
proof -
  have "parse_instruction ''send email to joe@example.com about Meeting saying 'Hello'' =
          Inl (ValueError invalid_format)"
    by code_simp
  then show ?thesis
    using parse_rejects_exactly_non_sentences
            [of "''send email to joe@example.com about Meeting saying 'Hello''"]
    by simp
qed

text \<open>C5, the claim as stated fails: text after the closing quote is accepted.\<close>

theorem parse_accepts_trailing_text:
  "parse_instruction ''send email to a@b about x saying 'hi' and more text'' =
     Inr (''a@b'', ''x'', ''hi'')"
  by code_simp


text \<open>
  C10. The claim: the address check accepts exactly the strings that match
  \<open>[\w\.-]+@[\w\.-]+\<close>. The pattern is applied to the lowered instruction. The address
  made of U+0130, \<open>@\<close> and \<open>b\<close> matches the pattern of the address from end to end, but
  lowering turns U+0130 into \<open>i\<close> followed by U+0307, which is no word character, and
  the instruction that sends to it is rejected with the invalid-format error. The two
  examples of the claim behave as it says: \<open>a@b\<close> is accepted and
  \<open>user+tag@example.com\<close> is rejected with the same error.
\<close>

theorem address_matching_only_before_lowering:
  "re_match [(1, Rep 1 addr_char_cp), (1, Lit (code_points ''@'')), (1, Rep 1 addr_char_cp)]
     dotted_address = Some [[304], code_points ''@'', code_points ''b''] \<and>
   lower_cps dotted_address = [105, 775] @ code_points ''@b'' \<and>
   parse_instruction_cp dotted_instruction = Covered (Inl (ValueError invalid_format)) \<and>
   parse_instruction_cp (code_points (''send email to a@b about s saying 'b'' @ [quote])) =
     Covered (Inr (code_points ''a@b'', code_points ''s'', code_points ''b'')) \<and>
   parse_instruction_cp
     (code_points (''send email to user+tag@example.com about s saying 'b'' @ [quote])) =
     Covered (Inl (ValueError invalid_format))"
  by code_simp


section \<open>Plan compilation\<close>

text \<open>
  C2. The claim: compilation never fails on a valid instruction and a supported provider.
  The label check looks the lowered label text up as a key of the label table of the
  provider, whose keys are \<open>to_label\<close> and the like: at the first step with a label
  the lookup of \<open>to\<close> raises \<open>KeyError\<close>, for every valid instruction, every
  HTML and both providers.
\<close>

theorem mock_llm_reason_raises_key_error:
  "parse_instruction instruction = Inr t \<Longrightarrow> prov = ''gmail'' \<or> prov = ''outlook'' \<Longrightarrow>
     mock_llm_reason instruction html prov tr = (tr, Inl (KeyError ''to''))"
  by (rule mock_llm_reason_supported)

theorem mock_llm_reason_raises_key_error_witness:
  "mock_llm_reason example_instruction ''<html>To</html>'' ''outlook'' [] = ([], Inl (KeyError ''to''))"
  using mock_llm_reason_raises_key_error [OF parse_example, of "''outlook''" "''<html>To</html>''" "[]"]
  by simp

text \<open>
  C3. The claim: compilation produces the plan of five actions. The list \<open>steps\<close> is
  built as claimed, but \<open>mock_llm_reason\<close> raises in the label check before it
  returns it.
\<close>

theorem plan_built_but_not_returned:
  "build_steps (provider_labels ''gmail'') ''joe@example.com'' ''meeting'' ''hello from automation'' =
     Inr gmail_plan \<and>
   mock_llm_reason example_instruction ''<html></html>'' ''gmail'' [] = ([], Inl (KeyError ''to''))"
proof
  show "build_steps (provider_labels ''gmail'') ''joe@example.com'' ''meeting''
          ''hello from automation'' = Inr gmail_plan"
    by (simp add: provider_labels_def label_table_def build_steps_def bind_exn_def getitem_def
                  gmail_plan_def)
  show "mock_llm_reason example_instruction ''<html></html>'' ''gmail'' [] = ([], Inl (KeyError ''to''))"
    by (rule mock_llm_reason_supported [OF parse_example]) simp
qed

section \<open>Lemmas: execute\<close>

lemma init_unsupported:
  "(init p = Inl (ValueError ''Unsupported provider'')) = (p \<noteq> ''gmail'' \<and> p \<noteq> ''outlook'')"
  by (simp add: init_def url_table_def)

lemma init_supported:
  "p = ''gmail'' \<or> p = ''outlook'' \<Longrightarrow> \<exists>u. init p = Inr \<lparr>provider = p, url = u\<rparr>"
  by (auto simp: init_def url_table_def)

lemma mock_llm_reason_rejects:
  "parse_instruction instruction = Inl e \<Longrightarrow>
     mock_llm_reason instruction html prov tr = (tr, Inl e)"
  by (simp add: mock_llm_reason_def)

lemma take_min_append: "take (min n (length xs)) (xs @ ys) = take n xs"
  by (cases "n \<le> length xs") (simp_all add: min_def)

lemma execute_rejected:
  assumes "parse_instruction instruction = Inl e"
  shows "\<exists>n r. execute ses ag instruction = (take n (prelude ag), Some r)"
proof -
  define es where "es = [Launch, NewPage, Goto (url ag),
              LogInfo (''Navigated to '' @ provider ag @ '' at '' @ url ag),
              WaitForLoadState ''networkidle'']"
  have pre: "prelude ag = es @ [Content]" by (simp add: prelude_def es_def)
  obtain tr r0 where p: "perform ses es [] = (tr, r0)" by (cases "perform ses es []")
  have ex: "execute ses ag instruction =
     (case perform ses es [] of
        (tr, Some e) \<Rightarrow> (tr, Some e)
      | (tr, None) \<Rightarrow>
          (case perform ses [Content] tr of
             (tr1, Some e) \<Rightarrow> (tr1, Some e)
           | (tr1, None) \<Rightarrow> (tr1, Some e)))"
    unfolding execute_def es_def using assms
    by (simp del: perform.simps add: mock_llm_reason_rejects split: prod.splits option.splits)
  show ?thesis
  proof (cases r0)
    case (Some x)
    from perform_prefix [of ses es "[]"] p obtain n where "tr = take n es" by auto
    then have "tr = take (min n (length es)) (prelude ag)"
      unfolding pre by (simp only: take_min_append)
    moreover have "execute ses ag instruction = (tr, Some x)"
      unfolding ex using p Some by simp
    ultimately show ?thesis by blast
  next
    case None
    with p have tr: "tr = es" using perform_ok [of ses es "[]" tr] by simp
    have "\<exists>r. execute ses ag instruction = (tr @ [Content], Some r)"
      unfolding ex using p None by (simp split: option.splits)
    moreover have "tr @ [Content] = take (length (prelude ag)) (prelude ag)"
      using tr pre by simp
    ultimately show ?thesis by metis
  qed
qed

lemma execute_rejected_all_return:
  assumes "parse_instruction instruction = Inl e" and "\<forall>tr ev. raises ses tr ev = None"
  shows "execute ses ag instruction = (prelude ag, Some e)"
  using assms
  by (simp add: execute_def perform_all_return mock_llm_reason_rejects prelude_def
           del: perform.simps)


section \<open>The agent\<close>

text \<open>
  C4. The claim: an unparseable instruction and an unsupported provider are both rejected
  before any navigation or page query. What holds: an unsupported provider is
  rejected by the constructor, which touches no browser. An unparseable instruction is
  rejected inside \<open>execute\<close>, by \<open>mock_llm_reason\<close>, which is given the HTML of the
  page: by then the browser is launched, the provider's URL loaded and the page content
  read. The events of such a run are a prefix of that prelude, so no element is
  resolved, waited for, clicked or filled; when every call returns they are the whole
  prelude and the error is the parser's.
\<close>

theorem rejections_and_ui_effects:
  "(init p = Inl (ValueError ''Unsupported provider'')) = (p \<noteq> ''gmail'' \<and> p \<noteq> ''outlook'') \<and>
   (parse_instruction instruction = Inl e \<longrightarrow>
      (\<exists>n r. execute ses ag instruction = (take n (prelude ag), Some r)) \<and>
      ((\<forall>tr ev. raises ses tr ev = None) \<longrightarrow> execute ses ag instruction = (prelude ag, Some e)))"
  using init_unsupported [of p] execute_rejected [of instruction e ses ag]
    execute_rejected_all_return [of instruction e ses ag]
  by blast

theorem rejections_and_ui_effects_witness:
  "init ''yahoo'' = Inl (ValueError ''Unsupported provider'') \<and>
   execute all_return gmail_agent ''send email to joe'' =
     (prelude gmail_agent, Some (ValueError invalid_format))"
proof -
  have 1: "parse_instruction ''send email to joe'' = Inl (ValueError invalid_format)"
    by code_simp
  have 2: "\<forall>tr ev. raises all_return tr ev = None"
    by (simp add: all_return_def)
  have 3: "''yahoo'' \<noteq> ''gmail'' \<and> ''yahoo'' \<noteq> ''outlook''" by simp
  show ?thesis
    using rejections_and_ui_effects
            [of "''yahoo''" "''send email to joe''" "ValueError invalid_format" all_return gmail_agent]
          1 2 3
    by blast
qed

text \<open>
  C4, the claim as stated fails: the run of a rejected instruction has navigated and
  read the page.
\<close>

theorem parse_error_after_navigation:
  "init ''gmail'' = Inr gmail_agent \<and>
   execute all_return gmail_agent ''hello'' =
     ([Launch, NewPage, Goto ''https://mail.google.com'',
       LogInfo ''Navigated to gmail at https://mail.google.com'',
       WaitForLoadState ''networkidle'', Content],
      Some (ValueError invalid_format))"
  by code_simp


section \<open>The executor loop\<close>

text \<open>
  C6. The claim: when the element of an action never becomes visible, the run fails
  with the timeout of that action, after a screenshot, and performs nothing more. In a
  plan \<open>pre @ st # post\<close> whose steps \<open>pre\<close> have run, if the element of \<open>st\<close> is
  resolved and the wait of 5000 ms for its visibility times out, then the timeout is
  logged, the screenshot \<open>error_<provider>.png\<close> is attempted and the run ends there:
  nothing of \<open>st\<close> after the wait and nothing of \<open>post\<close> is performed. The error of
  the run is the timeout only if the screenshot returns; if the screenshot raises,
  the run ends with the exception of the screenshot.
\<close>

theorem visibility_timeout_outcome:
  assumes "run_steps ses prov pre tr = (tr1, None)"
    and "step_locator st = Some (res, loc)"
    and "raises ses tr1 res = None"
    and "raises ses (tr1 @ [res]) (WaitFor loc 5000) = Some TimeoutError"
  shows "run_steps ses prov (pre @ st # post) tr =
           (tr1 @ [res, WaitFor loc 5000, LogError (snd st), Screenshot (''error_'' @ prov @ ''.png'')],
            Some (case raises ses (tr1 @ [res, WaitFor loc 5000, LogError (snd st)])
                         (Screenshot (''error_'' @ prov @ ''.png'')) of
                    None \<Rightarrow> TimeoutError | Some e \<Rightarrow> e))"
proof -
  have "do_step ses st tr1 = (tr1 @ [res, WaitFor loc 5000], Some TimeoutError)"
    using assms(2-4) by (rule do_step_wait_raises)
  from run_steps_step_fails [OF assms(1) this, of post] show ?thesis by simp
qed

theorem visibility_timeout_outcome_witness:
  "run_steps capture_fails ''gmail'' gmail_plan [] =
     ([GetByRole ''button'' ''Compose'', WaitFor (ByRole ''button'' ''Compose'') 5000,
       Click (ByRole ''button'' ''Compose''), LogInfo ''Clicked button: Compose'',
       WaitForTimeout 2000,
       GetByLabel ''To'', WaitFor (ByLabel ''To'') 5000, Fill (ByLabel ''To'') ''joe@example.com'',
       LogInfo ''Filled input To with joe@example.com'', WaitForTimeout 2000,
       GetByLabel ''Subject'', WaitFor (ByLabel ''Subject'') 5000,
       LogError [(''label'', ''Subject''), (''value'', ''meeting'')],
       Screenshot ''error_gmail.png''],
      Some PlaywrightError)"
proof -
  let ?pre = "[(''click_button'', [(''name'', ''Compose''), (''role'', ''button'')]),
               (''fill_input'', [(''label'', ''To''), (''value'', ''joe@example.com'')])]"
  let ?st = "(''fill_input'', [(''label'', ''Subject''), (''value'', ''meeting'')])"
  let ?post = "[(''fill_input'', [(''label'', ''Message Body''), (''value'', ''hello from automation'')]),
                (''click_button'', [(''name'', ''Send''), (''role'', ''button'')])]"
  let ?tr1 = "[GetByRole ''button'' ''Compose'', WaitFor (ByRole ''button'' ''Compose'') 5000,
       Click (ByRole ''button'' ''Compose''), LogInfo ''Clicked button: Compose'',
       WaitForTimeout 2000,
       GetByLabel ''To'', WaitFor (ByLabel ''To'') 5000, Fill (ByLabel ''To'') ''joe@example.com'',
       LogInfo ''Filled input To with joe@example.com'', WaitForTimeout 2000]"
  have 1: "run_steps capture_fails ''gmail'' ?pre [] = (?tr1, None)"
    by code_simp
  have 2: "step_locator ?st = Some (GetByLabel ''Subject'', ByLabel ''Subject'')"
    by code_simp
  have 3: "raises capture_fails ?tr1 (GetByLabel ''Subject'') = None"
    by (simp add: capture_fails_def)
  have 4: "raises capture_fails (?tr1 @ [GetByLabel ''Subject''])
             (WaitFor (ByLabel ''Subject'') 5000) = Some TimeoutError"
    by (simp add: capture_fails_def)
  have "gmail_plan = ?pre @ ?st # ?post" by (simp add: gmail_plan_def)
  then show ?thesis
    using visibility_timeout_outcome [OF 1 2 3 4, where post = ?post] by (simp add: capture_fails_def)
qed

text \<open>
  C7. The claim: a failure of the screenshot never masks the error of the action. For
  any exception \<open>x\<close> raised inside a step (by the wait, the click, the fill or any
  other call): if \<open>x\<close> is a \<open>TimeoutError\<close> the handler logs it and attempts the
  screenshot with nothing around it, and an exception of the screenshot leaves the
  loop in place of the timeout; any other \<open>x\<close> leaves the loop as it is, with no
  screenshot.
\<close>

theorem failed_action_outcome:
  assumes "run_steps ses prov pre tr = (tr1, None)"
    and "do_step ses st tr1 = (tr2, Some x)"
  shows "run_steps ses prov (pre @ st # post) tr =
           (if x = TimeoutError then
              (tr2 @ [LogError (snd st), Screenshot (''error_'' @ prov @ ''.png'')],
               Some (case raises ses (tr2 @ [LogError (snd st)])
                            (Screenshot (''error_'' @ prov @ ''.png'')) of
                       None \<Rightarrow> TimeoutError | Some e \<Rightarrow> e))
            else (tr2, Some x))"
  using assms by (rule run_steps_step_fails)

theorem failed_action_outcome_witness:
  "run_steps click_hangs ''gmail'' gmail_plan [] =
     ([GetByRole ''button'' ''Compose'', WaitFor (ByRole ''button'' ''Compose'') 5000,
       Click (ByRole ''button'' ''Compose''),
       LogError [(''name'', ''Compose''), (''role'', ''button'')],
       Screenshot ''error_gmail.png''],
      Some PlaywrightError)"
proof -
  let ?st = "(''click_button'', [(''name'', ''Compose''), (''role'', ''button'')])"
  let ?post = "[(''fill_input'', [(''label'', ''To''), (''value'', ''joe@example.com'')]),
                (''fill_input'', [(''label'', ''Subject''), (''value'', ''meeting'')]),
                (''fill_input'', [(''label'', ''Message Body''), (''value'', ''hello from automation'')]),
                (''click_button'', [(''name'', ''Send''), (''role'', ''button'')])]"
  have 1: "run_steps click_hangs ''gmail'' [] [] = ([], None)" by simp
  have 2: "do_step click_hangs ?st [] =
             ([GetByRole ''button'' ''Compose'', WaitFor (ByRole ''button'' ''Compose'') 5000,
               Click (ByRole ''button'' ''Compose'')], Some TimeoutError)"
    by code_simp
  have "gmail_plan = [] @ ?st # ?post" by (simp add: gmail_plan_def)
  then show ?thesis
    using failed_action_outcome [OF 1 2, where post = ?post] by (simp add: click_hangs_def)
qed

text \<open>
  C9. A run of the loop that ends without an exception has performed, after the events
  \<open>tr\<close> before it, exactly the calls of the first step, then those of the second, and
  so on in the order of the plan, and the calls of each step end with the settle delay
  of 2000 ms.
\<close>

theorem run_follows_plan_order:
  "run_steps ses prov plan tr = (tr', None) \<Longrightarrow>
     tr' = tr @ concat (map step_events plan) \<and>
     list_all (\<lambda>st. step_events st \<noteq> [] \<and> last (step_events st) = WaitForTimeout 2000) plan"
proof (induction plan arbitrary: tr)
  case Nil
  then show ?case by simp
next
  case (Cons st rest)
  from Cons.prems obtain tr1 where
    d: "do_step ses st tr = (tr1, None)" and r: "run_steps ses prov rest tr1 = (tr', None)"
    by (auto split: prod.splits option.splits exn.splits)
  from do_step_ok [OF d] Cons.IH [OF r] show ?case by simp
qed

theorem run_follows_plan_order_witness:
  "run_steps all_return ''gmail'' gmail_plan [] = (concat (map step_events gmail_plan), None)"
proof -
  obtain tr' r where h: "run_steps all_return ''gmail'' gmail_plan [] = (tr', r)"
    by (cases "run_steps all_return ''gmail'' gmail_plan []")
  have "snd (run_steps all_return ''gmail'' gmail_plan []) = None" by code_simp
  with h have r: "r = None" by simp
  from run_follows_plan_order [OF h [unfolded r]] h r show ?thesis by simp
qed

end
